theory Spec2Isabelle
  imports Main
begin

section \<open>The configure-adapter component of flopflip\<close>

text \<open>
  This theory embeds \<^verbatim>\<open>packages/react/modules/components/configure-adapter/configure-adapter.js\<close>:
  the class \<^verbatim>\<open>ConfigureAdapter\<close>, its instance fields and its lifecycle methods, and
  the exported function \<^verbatim>\<open>mergeAdapterArgs\<close>. Each method of the class is a function
  from the component before the call to the component after it.
\<close>

subsection \<open>Values and argument sets\<close>

text \<open>
  A JavaScript value as far as the component looks at it: a primitive, an array, or an
  object given by its own properties in insertion order.
\<close>

datatype jsval =
    Null
  | Bool bool
  | Num int
  | Str string
  | Arr "jsval list"
  | Obj "(string \<times> jsval) list"

text \<open>
  The Flow types \<^verbatim>\<open>AdapterArgs\<close> and \<^verbatim>\<open>Flags\<close> are object types: a value of either
  type is an object and so is never falsy.
\<close>

type_synonym AdapterArgs = "(string \<times> jsval) list"
type_synonym Flags = "(string \<times> jsval) list"

text \<open>
  Modelled from the spec: the function \<^verbatim>\<open>merge\<close> imported from the package
  \<^verbatim>\<open>deepmerge\<close>, which is not part of the source file. The specification describes it
  as a deep (recursive) merge in which the incoming argument set's leaf values take
  precedence on a key conflict: mappings are merged recursively, sequences are replaced
  and not merged, and on a conflict of scalars the incoming one wins. The keys of the
  previous object come first, in their order, followed by the new keys of the incoming one.
\<close>

fun deepmerge :: "jsval \<Rightarrow> jsval \<Rightarrow> jsval"
  and mergeObject :: "(string \<times> jsval) list \<Rightarrow> (string \<times> jsval) list \<Rightarrow> (string \<times> jsval) list"
where
  "deepmerge (Obj ts) (Obj ss) = Obj (mergeObject ts ss)"
| "deepmerge t s = s"
| "mergeObject [] ss = ss"
| "mergeObject ((k, t) # ts) ss =
     (case map_of ss k of
        None \<Rightarrow> (k, t) # mergeObject ts ss
      | Some s \<Rightarrow> (k, deepmerge t s) # mergeObject ts (filter (\<lambda>e. fst e \<noteq> k) ss))"

definition merge :: "AdapterArgs \<Rightarrow> AdapterArgs \<Rightarrow> AdapterArgs" where
  "merge target source = mergeObject target source"

text \<open>Reading a value at a path of keys, and the values that are not mappings.\<close>

fun lookup_path :: "(string \<times> jsval) list \<Rightarrow> string list \<Rightarrow> jsval option" where
  "lookup_path es [] = Some (Obj es)"
| "lookup_path es [k] = map_of es k"
| "lookup_path es (k # k' # ks) =
     (case map_of es k of
        Some (Obj es') \<Rightarrow> lookup_path es' (k' # ks)
      | _ \<Rightarrow> None)"

fun isLeaf :: "jsval \<Rightarrow> bool" where
  "isLeaf (Obj es) = False"
| "isLeaf v = True"

text \<open>An object has nothing at a path: some key on the way is missing from it.\<close>

fun absent :: "(string \<times> jsval) list \<Rightarrow> string list \<Rightarrow> bool" where
  "absent es [] = False"
| "absent es [k] = (map_of es k = None)"
| "absent es (k # k' # ks) =
     (case map_of es k of
        None \<Rightarrow> True
      | Some (Obj es') \<Rightarrow> absent es' (k' # ks)
      | Some v \<Rightarrow> False)"

subsection \<open>The types of the source file\<close>

datatype AdapterState = UNCONFIGURED | CONFIGURING | CONFIGURED

text \<open>\<^verbatim>\<open>shouldOverwrite?: boolean\<close>: the property may be absent (\<open>None\<close>).\<close>

record AdapterReconfigurationOptions =
  shouldOverwrite :: "bool option"

text \<open>
  \<^verbatim>\<open>options\<close> is \<open>None\<close> where the caller passed \<^verbatim>\<open>undefined\<close>; the destructuring
  default \<^verbatim>\<open>options = {}\<close> of \<^verbatim>\<open>mergeAdapterArgs\<close> then applies.
\<close>

record AdapterReconfiguration =
  adapterArgs :: AdapterArgs
  options :: "AdapterReconfigurationOptions option"

text \<open>
  The props. \<^verbatim>\<open>componentWillReceiveProps\<close> compares \<^verbatim>\<open>adapterArgs\<close> with \<^verbatim>\<open>!==\<close>,
  which on objects compares references: the prop is its reference
  (\<open>adapterArgsIdentity\<close>) together with the object it points to (\<open>propsAdapterArgs\<close>).
  \<^verbatim>\<open>shouldDeferAdapterConfiguration\<close> and \<^verbatim>\<open>defaultFlags\<close> have the values of
  \<^verbatim>\<open>defaultProps\<close> when the caller leaves them out.
\<close>

record Props =
  shouldDeferAdapterConfiguration :: bool
  adapterArgsIdentity :: nat
  propsAdapterArgs :: AdapterArgs
  defaultFlags :: Flags

record State =
  appliedAdapterArgs :: AdapterArgs

text \<open>
  What the component does to the outside: the calls it makes to the adapter and to the
  \<^verbatim>\<open>onFlagsStateChange\<close> function of its argument set, in the order it makes them.
\<close>

datatype AdapterCall =
    Configure AdapterArgs
  | Reconfigure AdapterArgs
  | OnFlagsStateChange Flags

text \<open>
  The two \<^verbatim>\<open>.then\<close> callbacks of the source: the one registered on the promise of
  \<^verbatim>\<open>adapter.configure\<close> and the one registered on the promise of
  \<^verbatim>\<open>adapter.reconfigure\<close>.
\<close>

datatype Continuation = ConfigureThen | ReconfigureThen

text \<open>
  An instance of \<^verbatim>\<open>ConfigureAdapter\<close>: its props, its React state and its two instance
  fields, followed by the calls made so far and the promises that are still outstanding.
\<close>

record Component =
  props :: Props
  state :: State
  adapterState :: AdapterState
  pendingAdapterArgs :: "AdapterArgs option"
  calls :: "AdapterCall list"
  promises :: "Continuation list"

subsection \<open>mergeAdapterArgs\<close>

definition mergeAdapterArgs :: "AdapterArgs \<Rightarrow> AdapterReconfiguration \<Rightarrow> AdapterArgs" where
  "mergeAdapterArgs previousAdapterArgs nextReconfiguration =
     (let nextAdapterArgs = adapterArgs nextReconfiguration;
          opts = (case options nextReconfiguration of
                    None \<Rightarrow> \<lparr>shouldOverwrite = None\<rparr>
                  | Some given \<Rightarrow> given)
      in if shouldOverwrite opts = Some True
         then nextAdapterArgs
         else merge previousAdapterArgs nextAdapterArgs)"

subsection \<open>The class\<close>

text \<open>The property initialisers: the fields of a freshly constructed instance.\<close>

definition constructor :: "Props \<Rightarrow> Component" where
  "constructor p =
     \<lparr>props = p,
      state = \<lparr>appliedAdapterArgs = propsAdapterArgs p\<rparr>,
      adapterState = UNCONFIGURED,
      pendingAdapterArgs = None,
      calls = [],
      promises = []\<rparr>"

definition setAdapterState :: "AdapterState \<Rightarrow> Component \<Rightarrow> Component" where
  "setAdapterState nextAdapterState c = c\<lparr>adapterState := nextAdapterState\<rparr>"

text \<open>
  Modelled from the spec: \<^verbatim>\<open>setState\<close> of React's \<^verbatim>\<open>PureComponent\<close>, which is not
  part of the source file. The specification describes the commit as one atomic,
  synchronous replacement: the updater is applied to the state and the callback runs
  once the state is replaced, before any new request can observe the component.
\<close>

definition setState :: "(State \<Rightarrow> State) \<Rightarrow> (Component \<Rightarrow> Component) \<Rightarrow> Component \<Rightarrow> Component" where
  "setState updater callback c = callback (c\<lparr>state := updater (state c)\<rparr>)"

definition applyAdapterArgs :: "AdapterArgs \<Rightarrow> Component \<Rightarrow> Component" where
  "applyAdapterArgs nextAdapterArgs c =
     setState (\<lambda>prevState. prevState\<lparr>appliedAdapterArgs := nextAdapterArgs\<rparr>)
              (\<lambda>this. this\<lparr>pendingAdapterArgs := None\<rparr>) c"

text \<open>
  \<^verbatim>\<open>this.pendingAdapterArgs || this.state.appliedAdapterArgs\<close>: the left operand is
  either \<^verbatim>\<open>null\<close> or an object, and an object is truthy.
\<close>

definition pendingOrApplied :: "Component \<Rightarrow> AdapterArgs" where
  "pendingOrApplied c =
     (case pendingAdapterArgs c of
        None \<Rightarrow> appliedAdapterArgs (state c)
      | Some pending \<Rightarrow> pending)"

definition setPendingAdapterArgs :: "AdapterReconfiguration \<Rightarrow> Component \<Rightarrow> Component" where
  "setPendingAdapterArgs nextReconfiguration c =
     c\<lparr>pendingAdapterArgs := Some (mergeAdapterArgs (pendingOrApplied c) nextReconfiguration)\<rparr>"

definition reconfigureOrQueue ::
  "AdapterArgs \<Rightarrow> AdapterReconfigurationOptions option \<Rightarrow> Component \<Rightarrow> Component" where
  "reconfigureOrQueue nextAdapterArgs opts c =
     (if adapterState c = CONFIGURED \<and> adapterState c \<noteq> CONFIGURING
      then applyAdapterArgs
             (mergeAdapterArgs (appliedAdapterArgs (state c))
                \<lparr>adapterArgs = nextAdapterArgs, options = opts\<rparr>) c
      else setPendingAdapterArgs \<lparr>adapterArgs = nextAdapterArgs, options = opts\<rparr> c)"

definition getAdapterArgsForConfiguration :: "Component \<Rightarrow> AdapterArgs" where
  "getAdapterArgsForConfiguration c = pendingOrApplied c"

definition handleDefaultFlags :: "Flags \<Rightarrow> Component \<Rightarrow> Component" where
  "handleDefaultFlags flags c =
     (if length (map fst flags) > 0
      then c\<lparr>calls := calls c @ [OnFlagsStateChange flags]\<rparr>
      else c)"

definition componentWillReceiveProps :: "Props \<Rightarrow> Component \<Rightarrow> Component" where
  "componentWillReceiveProps nextProps c =
     (if adapterArgsIdentity nextProps \<noteq> adapterArgsIdentity (props c)
      then reconfigureOrQueue (propsAdapterArgs nextProps)
             (Some \<lparr>shouldOverwrite = Some (adapterState c = CONFIGURED)\<rparr>) c
      else c)"

text \<open>
  Calling the adapter: the call is logged and the promise it returns is outstanding,
  with the \<^verbatim>\<open>.then\<close> callback registered on it.
\<close>

definition callAdapter :: "AdapterCall \<Rightarrow> Continuation \<Rightarrow> Component \<Rightarrow> Component" where
  "callAdapter call continuation c =
     c\<lparr>calls := calls c @ [call], promises := promises c @ [continuation]\<rparr>"

definition configureThen :: "Component \<Rightarrow> Component" where
  "configureThen c =
     (let c1 = setAdapterState CONFIGURED c
      in case pendingAdapterArgs c1 of
           Some pending \<Rightarrow> applyAdapterArgs pending c1
         | None \<Rightarrow> c1)"

definition reconfigureThen :: "Component \<Rightarrow> Component" where
  "reconfigureThen c = setAdapterState CONFIGURED c"

definition componentDidMount :: "Component \<Rightarrow> Component" where
  "componentDidMount c =
     (let c1 = handleDefaultFlags (defaultFlags (props c)) c
      in if \<not> shouldDeferAdapterConfiguration (props c1)
         then let c2 = setAdapterState CONFIGURING c1
              in callAdapter (Configure (getAdapterArgsForConfiguration c2)) ConfigureThen c2
         else c1)"

definition componentDidUpdate :: "Component \<Rightarrow> Component" where
  "componentDidUpdate c =
     (if \<not> shouldDeferAdapterConfiguration (props c)
         \<and> adapterState c \<noteq> CONFIGURED
         \<and> adapterState c \<noteq> CONFIGURING
      then let c1 = setAdapterState CONFIGURING c
           in callAdapter (Configure (getAdapterArgsForConfiguration c1)) ConfigureThen c1
      else if adapterState c = CONFIGURED \<and> adapterState c \<noteq> CONFIGURING
      then let c1 = setAdapterState CONFIGURING c
           in callAdapter (Reconfigure (getAdapterArgsForConfiguration c1)) ReconfigureThen c1
      else c)"

subsection \<open>The component over time\<close>

text \<open>
  What can happen to an instance: it is mounted, a consumer of the context calls
  \<^verbatim>\<open>reconfigureOrQueue\<close>, the parent passes new props (React calls
  \<^verbatim>\<open>componentWillReceiveProps\<close> and then installs the new props), React calls
  \<^verbatim>\<open>componentDidUpdate\<close>, or the oldest outstanding promise of the adapter settles:
  resolved, its \<^verbatim>\<open>.then\<close> callback runs; rejected, it does not.
\<close>

datatype Event =
    Mount
  | Request AdapterArgs "AdapterReconfigurationOptions option"
  | ReceiveProps Props
  | Update
  | Resolve
  | Reject

fun runContinuation :: "Continuation \<Rightarrow> Component \<Rightarrow> Component" where
  "runContinuation ConfigureThen c = configureThen c"
| "runContinuation ReconfigureThen c = reconfigureThen c"

fun step :: "Event \<Rightarrow> Component \<Rightarrow> Component" where
  "step Mount c = componentDidMount c"
| "step (Request nextAdapterArgs opts) c = reconfigureOrQueue nextAdapterArgs opts c"
| "step (ReceiveProps nextProps) c = (componentWillReceiveProps nextProps c)\<lparr>props := nextProps\<rparr>"
| "step Update c = componentDidUpdate c"
| "step Resolve c =
     (case promises c of
        [] \<Rightarrow> c
      | k # ks \<Rightarrow> runContinuation k (c\<lparr>promises := ks\<rparr>))"
| "step Reject c = c\<lparr>promises := tl (promises c)\<rparr>"

fun run :: "Component \<Rightarrow> Event list \<Rightarrow> Component" where
  "run c [] = c"
| "run c (e # es) = run (step e c) es"

text \<open>The components an instance goes through, the starting one included.\<close>

fun trajectory :: "Component \<Rightarrow> Event list \<Rightarrow> Component list" where
  "trajectory c [] = [c]"
| "trajectory c (e # es) = c # trajectory (step e c) es"

text \<open>
  The life of an instance under React: it is constructed, consumers below it may call
  \<^verbatim>\<open>reconfigureOrQueue\<close> before it is mounted (children mount first), it is mounted
  once, and everything else comes after.
\<close>

definition lifecycle ::
  "(AdapterArgs \<times> AdapterReconfigurationOptions option) list \<Rightarrow> Event list \<Rightarrow> Event list" where
  "lifecycle early later = map (\<lambda>(a, opts). Request a opts) early @ Mount # later"

subsection \<open>Transitions of the adapter state\<close>

text \<open>
  The three transitions of the adapter state that the design allows, and what is asked of
  one step of the component: the adapter state stays or makes an allowed transition, and
  a new call to \<^verbatim>\<open>configure\<close> or \<^verbatim>\<open>reconfigure\<close> (a new outstanding promise) is made only
  outside \<open>CONFIGURING\<close> and enters it.
\<close>

definition allowedTransition :: "AdapterState \<Rightarrow> AdapterState \<Rightarrow> bool" where
  "allowedTransition s s' =
     ((s = UNCONFIGURED \<and> s' = CONFIGURING)
      \<or> (s = CONFIGURING \<and> s' = CONFIGURED)
      \<or> (s = CONFIGURED \<and> s' = CONFIGURING))"

definition legal :: "Component \<Rightarrow> Component \<Rightarrow> bool" where
  "legal c c' =
     ((adapterState c' = adapterState c \<or> allowedTransition (adapterState c) (adapterState c'))
      \<and> (length (promises c) < length (promises c')
           \<longrightarrow> adapterState c \<noteq> CONFIGURING \<and> adapterState c' = CONFIGURING))"

text \<open>
  A component that is not mounted yet (\<open>idle\<close>), and the guard of a mounted one: at most
  one promise is outstanding, and only while the adapter state is \<open>CONFIGURING\<close>.
\<close>

definition idle :: "Component \<Rightarrow> bool" where
  "idle c = (adapterState c = UNCONFIGURED \<and> promises c = [])"

definition guarded :: "Component \<Rightarrow> bool" where
  "guarded c = (length (promises c) \<le> 1 \<and> (promises c \<noteq> [] \<longrightarrow> adapterState c = CONFIGURING))"

subsection \<open>Keys that are held\<close>

text \<open>
  The top-level keys of an argument set, and the keys an instance holds: those of its
  applied arguments and those of its pending arguments, if it has any.
\<close>

definition keys :: "AdapterArgs \<Rightarrow> string set" where
  "keys args = fst ` set args"

text \<open>The truthiness test \<^verbatim>\<open>options.shouldOverwrite\<close> of \<open>mergeAdapterArgs\<close>.\<close>

definition overwrites :: "AdapterReconfigurationOptions option \<Rightarrow> bool" where
  "overwrites opts = (case opts of None \<Rightarrow> False | Some given \<Rightarrow> shouldOverwrite given = Some True)"

text \<open>
  The events that overwrite by design: a request with \<open>shouldOverwrite\<close> true, and new props
  with a new argument object while the adapter state is \<open>CONFIGURED\<close>. A sequence of
  events is \<open>quiet\<close> from a component when none of them overwrites and none is a mount.
\<close>

fun overwriting :: "Event \<Rightarrow> Component \<Rightarrow> bool" where
  "overwriting (Request nextAdapterArgs opts) c = overwrites opts"
| "overwriting (ReceiveProps nextProps) c =
     (adapterArgsIdentity nextProps \<noteq> adapterArgsIdentity (props c) \<and> adapterState c = CONFIGURED)"
| "overwriting e c = False"

fun quiet :: "Component \<Rightarrow> Event list \<Rightarrow> bool" where
  "quiet c [] = True"
| "quiet c (e # es) = (e \<noteq> Mount \<and> \<not> overwriting e c \<and> quiet (step e c) es)"

definition heldKeys :: "Component \<Rightarrow> string set" where
  "heldKeys c =
     keys (appliedAdapterArgs (state c))
     \<union> (case pendingAdapterArgs c of None \<Rightarrow> {} | Some pending \<Rightarrow> keys pending)"

text \<open>
  The invariant that keeps a set of keys: the component is guarded, and either the keys are
  applied and no \<open>configure\<close> is outstanding, or the adapter is configuring with no
  \<open>reconfigure\<close> outstanding and the keys are pending.
\<close>

definition kept :: "string set \<Rightarrow> Component \<Rightarrow> bool" where
  "kept K c =
     (guarded c
      \<and> ((K \<subseteq> keys (appliedAdapterArgs (state c))
           \<and> adapterState c \<noteq> UNCONFIGURED \<and> ConfigureThen \<notin> set (promises c))
          \<or> (adapterState c = CONFIGURING \<and> ReconfigureThen \<notin> set (promises c)
              \<and> (case pendingAdapterArgs c of None \<Rightarrow> False | Some pending \<Rightarrow> K \<subseteq> keys pending))))"

subsection \<open>Scenarios\<close>

text \<open>
  The props of the specification's scenarios: \<^verbatim>\<open>adapterArgs = {flagA: 1}\<close>, configuration
  not deferred, \<^verbatim>\<open>defaultFlags = {flagX: true}\<close>; and props with a new argument object.
\<close>

definition scenarioProps :: Props where
  "scenarioProps =
     \<lparr>shouldDeferAdapterConfiguration = False,
      adapterArgsIdentity = 0,
      propsAdapterArgs = [(''flagA'', Num 1)],
      defaultFlags = [(''flagX'', Bool True)]\<rparr>"

definition nextScenarioProps :: Props where
  "nextScenarioProps =
     \<lparr>shouldDeferAdapterConfiguration = False,
      adapterArgsIdentity = 1,
      propsAdapterArgs = [(''flagZ'', Num 9)],
      defaultFlags = [(''flagX'', Bool True)]\<rparr>"

section \<open>Properties of the merge\<close>

lemma map_of_filter_other:
  "k' \<noteq> k \<Longrightarrow> map_of (filter (\<lambda>e. fst e \<noteq> k) ss) k' = map_of ss k'"
  by (induction ss) auto

lemma map_of_mergeObject:
  "map_of (mergeObject ts ss) k =
     (case map_of ss k of
        None \<Rightarrow> map_of ts k
      | Some s \<Rightarrow> (case map_of ts k of
                     None \<Rightarrow> Some s
                   | Some t \<Rightarrow> Some (deepmerge t s)))"
proof (induction ts arbitrary: ss)
  case Nil
  show ?case by (simp split: option.split)
next
  case (Cons e ts)
  obtain k0 t0 where e: "e = (k0, t0)" by (cases e)
  show ?case
  proof (cases "map_of ss k0")
    case None
    then show ?thesis using e Cons.IH [of ss] by (auto split: option.split)
  next
    case (Some s0)
    show ?thesis
    proof (cases "k = k0")
      case True
      then show ?thesis using e Some by simp
    next
      case False
      then show ?thesis
        using e Some Cons.IH [of "filter (\<lambda>e. fst e \<noteq> k0) ss"]
        by (simp add: map_of_filter_other split: option.split)
    qed
  qed
qed

lemma deepmerge_leaf: "isLeaf s \<Longrightarrow> deepmerge t s = s"
  by (cases s; cases t) simp_all

lemma lookup_path_mergeObject_leaf:
  "p \<noteq> [] \<Longrightarrow> lookup_path ss p = Some v \<Longrightarrow> isLeaf v \<Longrightarrow> lookup_path (mergeObject ts ss) p = Some v"
proof (induction ss p arbitrary: ts rule: lookup_path.induct)
  case (1 es)
  then show ?case by simp
next
  case (2 es k)
  then show ?case
    by (simp add: map_of_mergeObject deepmerge_leaf split: option.split)
next
  case (3 es k k' ks)
  from "3.prems" obtain es' where es': "map_of es k = Some (Obj es')"
    and rest: "lookup_path es' (k' # ks) = Some v"
    by (auto split: option.splits jsval.splits)
  show ?case
  proof (cases "map_of ts k")
    case None
    then show ?thesis using es' rest by (simp add: map_of_mergeObject)
  next
    case (Some t)
    show ?thesis
    proof (cases t)
      case (Obj ts')
      have "lookup_path (mergeObject ts' es') (k' # ks) = Some v"
        using "3.IH" [OF es' refl _ rest "3.prems"(3), of ts'] by simp
      then show ?thesis using Some Obj es' by (simp add: map_of_mergeObject)
    qed (use Some es' rest in \<open>simp_all add: map_of_mergeObject\<close>)
  qed
qed


lemma lookup_path_mergeObject_kept:
  "lookup_path ts p = Some v \<Longrightarrow> absent ss p \<Longrightarrow> lookup_path (mergeObject ts ss) p = Some v"
proof (induction ts p arbitrary: ss rule: lookup_path.induct)
  case (1 es)
  then show ?case by simp
next
  case (2 es k)
  then show ?case by (simp add: map_of_mergeObject)
next
  case (3 es k k' ks)
  from "3.prems"(1) obtain es' where es': "map_of es k = Some (Obj es')"
    and rest: "lookup_path es' (k' # ks) = Some v"
    by (auto split: option.splits jsval.splits)
  show ?case
  proof (cases "map_of ss k")
    case None
    then show ?thesis using es' rest by (simp add: map_of_mergeObject)
  next
    case (Some s)
    with "3.prems"(2) obtain ss' where s: "s = Obj ss'" and ab: "absent ss' (k' # ks)"
      by (auto split: jsval.splits)
    have "lookup_path (mergeObject es' ss') (k' # ks) = Some v"
      using "3.IH" [OF es' refl rest ab] .
    then show ?thesis using Some s es' by (simp add: map_of_mergeObject)
  qed
qed

section \<open>The merge operation\<close>

text \<open>
  C1. For every previous argument set \<open>A\<close>, every next argument set \<open>B\<close> and every options
  value, \<open>mergeAdapterArgs\<close> returns \<open>B\<close> itself when \<open>options.shouldOverwrite\<close> is true
  and the deep merge of \<open>A\<close> and \<open>B\<close> otherwise (also when the options or the property are
  missing). The deep merge is a union in which \<open>B\<close> wins: under every key it has what \<open>B\<close>
  has there, merged recursively with what \<open>A\<close> has there, and what \<open>A\<close> has where \<open>B\<close> has
  nothing; every leaf of \<open>B\<close> is found in it at the same path, and so is everything of \<open>A\<close>
  at a path that \<open>B\<close> does not have.
\<close>

theorem mergeAdapterArgs_overwrite_or_deep_merge:
  "mergeAdapterArgs A \<lparr>adapterArgs = B, options = opts\<rparr> =
     (if (case opts of None \<Rightarrow> False | Some given \<Rightarrow> shouldOverwrite given = Some True)
      then B else merge A B)
   \<and> (\<forall>k. map_of (merge A B) k =
            (case map_of B k of
               None \<Rightarrow> map_of A k
             | Some s \<Rightarrow> (case map_of A k of
                            None \<Rightarrow> Some s
                          | Some t \<Rightarrow> Some (deepmerge t s))))
   \<and> (\<forall>p v. p \<noteq> [] \<and> lookup_path B p = Some v \<and> isLeaf v
            \<longrightarrow> lookup_path (merge A B) p = Some v)
   \<and> (\<forall>p v. lookup_path A p = Some v \<and> absent B p
            \<longrightarrow> lookup_path (merge A B) p = Some v)"
proof (intro conjI allI impI)
  show "mergeAdapterArgs A \<lparr>adapterArgs = B, options = opts\<rparr> =
     (if (case opts of None \<Rightarrow> False | Some given \<Rightarrow> shouldOverwrite given = Some True)
      then B else merge A B)"
    by (simp add: mergeAdapterArgs_def split: option.split)
next
  fix k
  show "map_of (merge A B) k =
            (case map_of B k of
               None \<Rightarrow> map_of A k
             | Some s \<Rightarrow> (case map_of A k of
                            None \<Rightarrow> Some s
                          | Some t \<Rightarrow> Some (deepmerge t s)))"
    unfolding merge_def by (rule map_of_mergeObject)
next
  fix p v
  assume "p \<noteq> [] \<and> lookup_path B p = Some v \<and> isLeaf v"
  then show "lookup_path (merge A B) p = Some v"
    unfolding merge_def by (simp add: lookup_path_mergeObject_leaf)
next
  fix p v
  assume "lookup_path A p = Some v \<and> absent B p"
  then show "lookup_path (merge A B) p = Some v"
    unfolding merge_def by (simp add: lookup_path_mergeObject_kept)
qed

theorem mergeAdapterArgs_overwrite_or_deep_merge_witness:
  "mergeAdapterArgs
     [(''user'', Obj [(''key'', Str ''a''), (''plan'', Num 1)]), (''flagA'', Num 1)]
     \<lparr>adapterArgs = [(''user'', Obj [(''key'', Str ''b'')]), (''flagB'', Num 2)],
      options = Some \<lparr>shouldOverwrite = Some False\<rparr>\<rparr>
   = [(''user'', Obj [(''key'', Str ''b''), (''plan'', Num 1)]), (''flagA'', Num 1),
      (''flagB'', Num 2)]
   \<and> lookup_path
       (merge [(''user'', Obj [(''key'', Str ''a''), (''plan'', Num 1)]), (''flagA'', Num 1)]
              [(''user'', Obj [(''key'', Str ''b'')]), (''flagB'', Num 2)])
       [''user'', ''key''] = Some (Str ''b'')
   \<and> lookup_path
       (merge [(''user'', Obj [(''key'', Str ''a''), (''plan'', Num 1)]), (''flagA'', Num 1)]
              [(''user'', Obj [(''key'', Str ''b'')]), (''flagB'', Num 2)])
       [''user'', ''plan''] = Some (Num 1)"
proof -
  let ?A = "[(''user'', Obj [(''key'', Str ''a''), (''plan'', Num 1)]), (''flagA'', Num 1)]"
  let ?B = "[(''user'', Obj [(''key'', Str ''b'')]), (''flagB'', Num 2)]"
  note t = mergeAdapterArgs_overwrite_or_deep_merge
             [of ?A ?B "Some \<lparr>shouldOverwrite = Some False\<rparr>"]
  have leaf: "[''user'', ''key''] \<noteq> [] \<and> lookup_path ?B [''user'', ''key''] = Some (Str ''b'')
              \<and> isLeaf (Str ''b'')"
    by simp
  have kept: "lookup_path ?A [''user'', ''plan''] = Some (Num 1) \<and> absent ?B [''user'', ''plan'']"
    by simp
  have 1: "lookup_path (merge ?A ?B) [''user'', ''key''] = Some (Str ''b'')"
    using t leaf by blast
  have 2: "lookup_path (merge ?A ?B) [''user'', ''plan''] = Some (Num 1)"
    using t kept by blast
  have 3: "mergeAdapterArgs ?A
             \<lparr>adapterArgs = ?B, options = Some \<lparr>shouldOverwrite = Some False\<rparr>\<rparr> = merge ?A ?B"
    using t by simp
  have 4: "merge ?A ?B = [(''user'', Obj [(''key'', Str ''b''), (''plan'', Num 1)]),
                          (''flagA'', Num 1), (''flagB'', Num 2)]"
    by (simp add: merge_def)
  show ?thesis using 1 2 3 4 by simp
qed

section \<open>Requests\<close>

lemmas method_defs =
  componentDidMount_def componentDidUpdate_def componentWillReceiveProps_def
  reconfigureOrQueue_def applyAdapterArgs_def setState_def setPendingAdapterArgs_def
  setAdapterState_def callAdapter_def handleDefaultFlags_def configureThen_def
  reconfigureThen_def getAdapterArgsForConfiguration_def


text \<open>
  C3. In the state \<open>CONFIGURED\<close> a call of \<open>reconfigureOrQueue\<close> commits before it returns:
  the applied arguments of the component it returns are the merge, by \<open>mergeAdapterArgs\<close>
  and the options given, of the applied arguments before the call with the new ones. The
  pending arguments are cleared, and the call itself makes no call to the adapter: the log
  of calls and the outstanding promises are as before, and the adapter state stays
  \<open>CONFIGURED\<close>.
\<close>

theorem commit_when_configured:
  "adapterState c = CONFIGURED \<Longrightarrow>
   reconfigureOrQueue a opts c =
     c\<lparr>state := (state c)\<lparr>appliedAdapterArgs :=
           mergeAdapterArgs (appliedAdapterArgs (state c)) \<lparr>adapterArgs = a, options = opts\<rparr>\<rparr>,
       pendingAdapterArgs := None\<rparr>
   \<and> appliedAdapterArgs (state (reconfigureOrQueue a opts c)) =
       mergeAdapterArgs (appliedAdapterArgs (state c)) \<lparr>adapterArgs = a, options = opts\<rparr>
   \<and> calls (reconfigureOrQueue a opts c) = calls c
   \<and> promises (reconfigureOrQueue a opts c) = promises c
   \<and> adapterState (reconfigureOrQueue a opts c) = CONFIGURED"
  by (simp add: reconfigureOrQueue_def applyAdapterArgs_def setState_def)

theorem commit_when_configured_witness:
  "adapterState (run (constructor scenarioProps) [Mount, Resolve]) = CONFIGURED
   \<and> appliedAdapterArgs (state (reconfigureOrQueue [(''flagB'', Num 2)] None
         (run (constructor scenarioProps) [Mount, Resolve])))
       = [(''flagA'', Num 1), (''flagB'', Num 2)]
   \<and> calls (reconfigureOrQueue [(''flagB'', Num 2)] None
         (run (constructor scenarioProps) [Mount, Resolve]))
       = [OnFlagsStateChange [(''flagX'', Bool True)], Configure [(''flagA'', Num 1)]]"
proof -
  let ?c = "run (constructor scenarioProps) [Mount, Resolve]"
  have h: "adapterState ?c = CONFIGURED" by code_simp
  have a: "mergeAdapterArgs (appliedAdapterArgs (state ?c))
             \<lparr>adapterArgs = [(''flagB'', Num 2)], options = None\<rparr>
           = [(''flagA'', Num 1), (''flagB'', Num 2)]" by code_simp
  have b: "calls ?c = [OnFlagsStateChange [(''flagX'', Bool True)], Configure [(''flagA'', Num 1)]]"
    by code_simp
  show ?thesis
    using commit_when_configured [OF h, of "[(''flagB'', Num 2)]" None] h a b by simp
qed

text \<open>
  C4. In the states \<open>UNCONFIGURED\<close> and \<open>CONFIGURING\<close> a call of \<open>reconfigureOrQueue\<close>
  only sets the pending arguments: to the merge, by \<open>mergeAdapterArgs\<close> and the options
  given, of the pending arguments (of the applied arguments when there are no pending
  ones) with the new arguments. Every other field is as before; in particular no call to
  the adapter is made.
\<close>

theorem queue_when_not_configured:
  "adapterState c = UNCONFIGURED \<or> adapterState c = CONFIGURING \<Longrightarrow>
   reconfigureOrQueue a opts c =
     c\<lparr>pendingAdapterArgs :=
         Some (mergeAdapterArgs
                 (case pendingAdapterArgs c of
                    None \<Rightarrow> appliedAdapterArgs (state c)
                  | Some pending \<Rightarrow> pending)
                 \<lparr>adapterArgs = a, options = opts\<rparr>)\<rparr>
   \<and> calls (reconfigureOrQueue a opts c) = calls c
   \<and> promises (reconfigureOrQueue a opts c) = promises c"
  by (auto simp add: reconfigureOrQueue_def setPendingAdapterArgs_def pendingOrApplied_def)

theorem queue_when_not_configured_witness:
  "(adapterState (run (constructor scenarioProps) [Mount]) = UNCONFIGURED
    \<or> adapterState (run (constructor scenarioProps) [Mount]) = CONFIGURING)
   \<and> pendingAdapterArgs (reconfigureOrQueue [(''flagB'', Num 2)] None
         (run (constructor scenarioProps) [Mount]))
       = Some [(''flagA'', Num 1), (''flagB'', Num 2)]
   \<and> calls (reconfigureOrQueue [(''flagB'', Num 2)] None
         (run (constructor scenarioProps) [Mount]))
       = [OnFlagsStateChange [(''flagX'', Bool True)], Configure [(''flagA'', Num 1)]]"
proof -
  let ?c = "run (constructor scenarioProps) [Mount]"
  have h: "adapterState ?c = UNCONFIGURED \<or> adapterState ?c = CONFIGURING" by code_simp
  have a: "pendingAdapterArgs
             (?c\<lparr>pendingAdapterArgs :=
                 Some (mergeAdapterArgs
                         (case pendingAdapterArgs ?c of
                            None \<Rightarrow> appliedAdapterArgs (state ?c)
                          | Some pending \<Rightarrow> pending)
                         \<lparr>adapterArgs = [(''flagB'', Num 2)], options = None\<rparr>)\<rparr>)
           = Some [(''flagA'', Num 1), (''flagB'', Num 2)]" by code_simp
  have b: "calls ?c = [OnFlagsStateChange [(''flagX'', Bool True)], Configure [(''flagA'', Num 1)]]"
    by code_simp
  from queue_when_not_configured [OF h, of "[(''flagB'', Num 2)]" None]
  have t: "reconfigureOrQueue [(''flagB'', Num 2)] None ?c =
      ?c\<lparr>pendingAdapterArgs :=
                 Some (mergeAdapterArgs
                         (case pendingAdapterArgs ?c of
                            None \<Rightarrow> appliedAdapterArgs (state ?c)
                          | Some pending \<Rightarrow> pending)
                         \<lparr>adapterArgs = [(''flagB'', Num 2)], options = None\<rparr>)\<rparr>"
    and t2: "calls (reconfigureOrQueue [(''flagB'', Num 2)] None ?c) = calls ?c"
    by blast+
  show ?thesis using h a b t2 unfolding t by simp
qed

text \<open>
  C10. In the state \<open>CONFIGURED\<close> with pending arguments present, a call of
  \<open>reconfigureOrQueue\<close> commits the merge of the applied arguments, not of the pending
  ones, with the new arguments, and clears the pending arguments. What had been pending
  has no influence on the component returned: with any other pending arguments, or none,
  the call returns the same component.
\<close>

theorem commit_discards_pending:
  "adapterState c = CONFIGURED \<Longrightarrow> pendingAdapterArgs c = Some pending \<Longrightarrow>
   appliedAdapterArgs (state (reconfigureOrQueue a opts c)) =
     mergeAdapterArgs (appliedAdapterArgs (state c)) \<lparr>adapterArgs = a, options = opts\<rparr>
   \<and> pendingAdapterArgs (reconfigureOrQueue a opts c) = None
   \<and> reconfigureOrQueue a opts (c\<lparr>pendingAdapterArgs := other\<rparr>) = reconfigureOrQueue a opts c"
  by (simp add: reconfigureOrQueue_def applyAdapterArgs_def setState_def)

theorem commit_discards_pending_witness:
  "adapterState (run (constructor scenarioProps)
       [Mount, Resolve, Update, Request [(''flagB'', Num 2)] None, Resolve]) = CONFIGURED
   \<and> pendingAdapterArgs (run (constructor scenarioProps)
       [Mount, Resolve, Update, Request [(''flagB'', Num 2)] None, Resolve])
       = Some [(''flagA'', Num 1), (''flagB'', Num 2)]
   \<and> appliedAdapterArgs (state (reconfigureOrQueue [(''flagC'', Num 3)] None
       (run (constructor scenarioProps)
          [Mount, Resolve, Update, Request [(''flagB'', Num 2)] None, Resolve])))
       = [(''flagA'', Num 1), (''flagC'', Num 3)]
   \<and> pendingAdapterArgs (reconfigureOrQueue [(''flagC'', Num 3)] None
       (run (constructor scenarioProps)
          [Mount, Resolve, Update, Request [(''flagB'', Num 2)] None, Resolve])) = None"
proof -
  let ?c = "run (constructor scenarioProps)
              [Mount, Resolve, Update, Request [(''flagB'', Num 2)] None, Resolve]"
  have h: "adapterState ?c = CONFIGURED" by code_simp
  have p: "pendingAdapterArgs ?c = Some [(''flagA'', Num 1), (''flagB'', Num 2)]" by code_simp
  have a: "mergeAdapterArgs (appliedAdapterArgs (state ?c))
             \<lparr>adapterArgs = [(''flagC'', Num 3)], options = None\<rparr>
           = [(''flagA'', Num 1), (''flagC'', Num 3)]" by code_simp
  show ?thesis
    using commit_discards_pending [OF h p, of "[(''flagC'', Num 3)]" None] h p a by simp
qed

text \<open>
  C8. \<open>componentWillReceiveProps\<close> compares the identity of the new argument set with
  that of the current props. When they differ, it calls \<open>reconfigureOrQueue\<close> with the new
  argument set and \<open>shouldOverwrite\<close> true exactly when the adapter state is \<open>CONFIGURED\<close>:
  in that state the new argument set replaces the applied arguments, in the other states
  it is merged into the pending (or else the applied) arguments and queued. When the
  identity is the same, nothing happens.
\<close>

theorem props_change_routing:
  "componentWillReceiveProps nextProps c =
     (if adapterArgsIdentity nextProps \<noteq> adapterArgsIdentity (props c)
      then reconfigureOrQueue (propsAdapterArgs nextProps)
             (Some \<lparr>shouldOverwrite = Some (adapterState c = CONFIGURED)\<rparr>) c
      else c)
   \<and> (adapterArgsIdentity nextProps \<noteq> adapterArgsIdentity (props c)
        \<and> adapterState c = CONFIGURED
        \<longrightarrow> componentWillReceiveProps nextProps c =
              c\<lparr>state := (state c)\<lparr>appliedAdapterArgs := propsAdapterArgs nextProps\<rparr>,
                pendingAdapterArgs := None\<rparr>)
   \<and> (adapterArgsIdentity nextProps \<noteq> adapterArgsIdentity (props c)
        \<and> adapterState c \<noteq> CONFIGURED
        \<longrightarrow> componentWillReceiveProps nextProps c =
              c\<lparr>pendingAdapterArgs :=
                  Some (merge (case pendingAdapterArgs c of
                                 None \<Rightarrow> appliedAdapterArgs (state c)
                               | Some pending \<Rightarrow> pending)
                              (propsAdapterArgs nextProps))\<rparr>)"
  by (simp add: componentWillReceiveProps_def reconfigureOrQueue_def applyAdapterArgs_def
      setState_def setPendingAdapterArgs_def pendingOrApplied_def mergeAdapterArgs_def)

theorem props_change_routing_witness:
  "adapterArgsIdentity nextScenarioProps
     \<noteq> adapterArgsIdentity (props (run (constructor scenarioProps) [Mount, Resolve]))
   \<and> adapterState (run (constructor scenarioProps) [Mount, Resolve]) = CONFIGURED
   \<and> state (componentWillReceiveProps nextScenarioProps
               (run (constructor scenarioProps) [Mount, Resolve])) =
       \<lparr>appliedAdapterArgs = [(''flagZ'', Num 9)]\<rparr>
   \<and> adapterArgsIdentity nextScenarioProps
       \<noteq> adapterArgsIdentity (props (run (constructor scenarioProps) [Mount]))
   \<and> adapterState (run (constructor scenarioProps) [Mount]) \<noteq> CONFIGURED
   \<and> pendingAdapterArgs (componentWillReceiveProps nextScenarioProps
                            (run (constructor scenarioProps) [Mount])) =
       Some [(''flagA'', Num 1), (''flagZ'', Num 9)]
   \<and> componentWillReceiveProps scenarioProps (run (constructor scenarioProps) [Mount]) =
       run (constructor scenarioProps) [Mount]"
proof -
  let ?c = "run (constructor scenarioProps) [Mount, Resolve]"
  let ?d = "run (constructor scenarioProps) [Mount]"
  have i1: "adapterArgsIdentity nextScenarioProps \<noteq> adapterArgsIdentity (props ?c)" by code_simp
  have h1: "adapterState ?c = CONFIGURED" by code_simp
  have i2: "adapterArgsIdentity nextScenarioProps \<noteq> adapterArgsIdentity (props ?d)" by code_simp
  have h2: "adapterState ?d \<noteq> CONFIGURED" by code_simp
  have i3: "\<not> adapterArgsIdentity scenarioProps \<noteq> adapterArgsIdentity (props ?d)" by code_simp
  have n: "propsAdapterArgs nextScenarioProps = [(''flagZ'', Num 9)]" by code_simp
  have m: "merge (case pendingAdapterArgs ?d of
                    None \<Rightarrow> appliedAdapterArgs (state ?d)
                  | Some pending \<Rightarrow> pending)
                 (propsAdapterArgs nextScenarioProps) = [(''flagA'', Num 1), (''flagZ'', Num 9)]"
    by code_simp
  have e1: "componentWillReceiveProps nextScenarioProps ?c =
              ?c\<lparr>state := (state ?c)\<lparr>appliedAdapterArgs := propsAdapterArgs nextScenarioProps\<rparr>,
                pendingAdapterArgs := None\<rparr>"
    using props_change_routing [of nextScenarioProps ?c] i1 h1 by blast
  have e2: "componentWillReceiveProps nextScenarioProps ?d =
              ?d\<lparr>pendingAdapterArgs :=
                  Some (merge (case pendingAdapterArgs ?d of
                                 None \<Rightarrow> appliedAdapterArgs (state ?d)
                               | Some pending \<Rightarrow> pending)
                              (propsAdapterArgs nextScenarioProps))\<rparr>"
    using props_change_routing [of nextScenarioProps ?d] i2 h2 by blast
  have e3: "componentWillReceiveProps scenarioProps ?d = ?d"
    using props_change_routing [of scenarioProps ?d] i3 by simp
  have a1: "state (componentWillReceiveProps nextScenarioProps ?c) =
              \<lparr>appliedAdapterArgs = [(''flagZ'', Num 9)]\<rparr>"
    unfolding e1 n by simp
  have a2: "pendingAdapterArgs (componentWillReceiveProps nextScenarioProps ?d) =
              Some [(''flagA'', Num 1), (''flagZ'', Num 9)]"
    unfolding e2 m by simp
  show ?thesis using i1 h1 a1 i2 h2 a2 e3 by blast
qed

section \<open>Mounting and updating\<close>

text \<open>
  C5. Mounting a component whose configuration is not deferred and whose adapter state is
  \<open>UNCONFIGURED\<close> moves it to \<open>CONFIGURING\<close> and calls \<open>configure\<close> with the pending
  arguments if there are any and with the applied ones otherwise. Whenever the promise of
  that call is resolved, the adapter state becomes \<open>CONFIGURED\<close>, and pending arguments
  present at that moment become the applied arguments and are cleared.
\<close>

theorem startup_configure:
  "\<not> shouldDeferAdapterConfiguration (props c) \<Longrightarrow> adapterState c = UNCONFIGURED \<Longrightarrow>
   adapterState (componentDidMount c) = CONFIGURING
   \<and> calls (componentDidMount c) =
       calls (handleDefaultFlags (defaultFlags (props c)) c)
       @ [Configure (case pendingAdapterArgs c of
                       None \<Rightarrow> appliedAdapterArgs (state c)
                     | Some pending \<Rightarrow> pending)]
   \<and> promises (componentDidMount c) = promises c @ [ConfigureThen]
   \<and> (\<forall>d ks. promises d = ConfigureThen # ks \<longrightarrow>
         step Resolve d =
           (case pendingAdapterArgs d of
              None \<Rightarrow> d\<lparr>promises := ks, adapterState := CONFIGURED\<rparr>
            | Some pending \<Rightarrow>
                d\<lparr>promises := ks, adapterState := CONFIGURED,
                  state := (state d)\<lparr>appliedAdapterArgs := pending\<rparr>,
                  pendingAdapterArgs := None\<rparr>))"
  by (simp add: method_defs pendingOrApplied_def Let_def split: option.split)

theorem startup_configure_witness:
  "\<not> shouldDeferAdapterConfiguration (props (constructor scenarioProps))
   \<and> adapterState (constructor scenarioProps) = UNCONFIGURED
   \<and> adapterState (componentDidMount (constructor scenarioProps)) = CONFIGURING
   \<and> calls (componentDidMount (constructor scenarioProps)) =
       [OnFlagsStateChange [(''flagX'', Bool True)], Configure [(''flagA'', Num 1)]]
   \<and> promises (run (constructor scenarioProps) [Mount, Request [(''flagB'', Num 2)] None]) =
       [ConfigureThen]
   \<and> state (step Resolve (run (constructor scenarioProps) [Mount, Request [(''flagB'', Num 2)] None])) =
       \<lparr>appliedAdapterArgs = [(''flagA'', Num 1), (''flagB'', Num 2)]\<rparr>
   \<and> pendingAdapterArgs
       (step Resolve (run (constructor scenarioProps) [Mount, Request [(''flagB'', Num 2)] None])) = None
   \<and> adapterState
       (step Resolve (run (constructor scenarioProps) [Mount, Request [(''flagB'', Num 2)] None])) =
       CONFIGURED"
proof -
  let ?c = "constructor scenarioProps"
  let ?d = "run (constructor scenarioProps) [Mount, Request [(''flagB'', Num 2)] None]"
  have h1: "\<not> shouldDeferAdapterConfiguration (props ?c)" by code_simp
  have h2: "adapterState ?c = UNCONFIGURED" by code_simp
  note t = startup_configure [OF h1 h2]
  have a: "calls (handleDefaultFlags (defaultFlags (props ?c)) ?c)
           @ [Configure (case pendingAdapterArgs ?c of
                       None \<Rightarrow> appliedAdapterArgs (state ?c)
                     | Some pending \<Rightarrow> pending)]
         = [OnFlagsStateChange [(''flagX'', Bool True)], Configure [(''flagA'', Num 1)]]"
    by code_simp
  have p: "promises ?d = ConfigureThen # []" by code_simp
  have q: "pendingAdapterArgs ?d = Some [(''flagA'', Num 1), (''flagB'', Num 2)]" by code_simp
  from t p have r: "step Resolve ?d =
           (case pendingAdapterArgs ?d of
              None \<Rightarrow> ?d\<lparr>promises := [], adapterState := CONFIGURED\<rparr>
            | Some pending \<Rightarrow>
                ?d\<lparr>promises := [], adapterState := CONFIGURED,
                  state := (state ?d)\<lparr>appliedAdapterArgs := pending\<rparr>,
                  pendingAdapterArgs := None\<rparr>)"
    by blast
  have r': "step Resolve ?d = ?d\<lparr>promises := [], adapterState := CONFIGURED,
                  state := (state ?d)\<lparr>appliedAdapterArgs := [(''flagA'', Num 1), (''flagB'', Num 2)]\<rparr>,
                  pendingAdapterArgs := None\<rparr>"
    unfolding r q by simp
  have c1: "adapterState (componentDidMount ?c) = CONFIGURING" using t by blast
  have c2: "calls (componentDidMount ?c) =
       [OnFlagsStateChange [(''flagX'', Bool True)], Configure [(''flagA'', Num 1)]]"
    using t a by simp
  show ?thesis using h1 h2 c1 c2 p unfolding r' by simp
qed

text \<open>
  C7. \<open>componentDidUpdate\<close> in the state \<open>CONFIGURED\<close> moves to \<open>CONFIGURING\<close> and calls
  \<open>reconfigure\<close> with the pending arguments if there are any and with the applied ones
  otherwise, whether or not configuration is deferred. Whenever the promise of that call
  is resolved, the adapter state becomes \<open>CONFIGURED\<close> again and nothing else changes:
  the pending and the applied arguments are as they were.
\<close>

theorem tick_reconfigure:
  "adapterState c = CONFIGURED \<Longrightarrow>
   componentDidUpdate c =
     c\<lparr>adapterState := CONFIGURING,
       calls := calls c @ [Reconfigure (case pendingAdapterArgs c of
                                          None \<Rightarrow> appliedAdapterArgs (state c)
                                        | Some pending \<Rightarrow> pending)],
       promises := promises c @ [ReconfigureThen]\<rparr>
   \<and> (\<forall>d ks. promises d = ReconfigureThen # ks \<longrightarrow>
         step Resolve d = d\<lparr>promises := ks, adapterState := CONFIGURED\<rparr>
         \<and> pendingAdapterArgs (step Resolve d) = pendingAdapterArgs d
         \<and> state (step Resolve d) = state d)"
  by (simp add: method_defs pendingOrApplied_def Let_def split: option.split)

theorem tick_reconfigure_witness:
  "adapterState (run (constructor scenarioProps) [Mount, Resolve]) = CONFIGURED
   \<and> calls (componentDidUpdate (run (constructor scenarioProps) [Mount, Resolve])) =
       [OnFlagsStateChange [(''flagX'', Bool True)], Configure [(''flagA'', Num 1)],
        Reconfigure [(''flagA'', Num 1)]]
   \<and> promises (run (constructor scenarioProps)
        [Mount, Resolve, Update, Request [(''flagB'', Num 2)] None]) = [ReconfigureThen]
   \<and> adapterState (step Resolve (run (constructor scenarioProps)
        [Mount, Resolve, Update, Request [(''flagB'', Num 2)] None])) = CONFIGURED
   \<and> pendingAdapterArgs (step Resolve (run (constructor scenarioProps)
        [Mount, Resolve, Update, Request [(''flagB'', Num 2)] None])) =
       Some [(''flagA'', Num 1), (''flagB'', Num 2)]
   \<and> state (step Resolve (run (constructor scenarioProps)
        [Mount, Resolve, Update, Request [(''flagB'', Num 2)] None])) =
       \<lparr>appliedAdapterArgs = [(''flagA'', Num 1)]\<rparr>"
proof -
  let ?c = "run (constructor scenarioProps) [Mount, Resolve]"
  let ?d = "run (constructor scenarioProps)
              [Mount, Resolve, Update, Request [(''flagB'', Num 2)] None]"
  have h: "adapterState ?c = CONFIGURED" by code_simp
  note t = tick_reconfigure [OF h]
  have a: "calls ?c @ [Reconfigure (case pendingAdapterArgs ?c of
                                          None \<Rightarrow> appliedAdapterArgs (state ?c)
                                        | Some pending \<Rightarrow> pending)]
           = [OnFlagsStateChange [(''flagX'', Bool True)], Configure [(''flagA'', Num 1)],
              Reconfigure [(''flagA'', Num 1)]]"
    by code_simp
  have p: "promises ?d = ReconfigureThen # []" by code_simp
  have q: "pendingAdapterArgs ?d = Some [(''flagA'', Num 1), (''flagB'', Num 2)]" by code_simp
  have s: "state ?d = \<lparr>appliedAdapterArgs = [(''flagA'', Num 1)]\<rparr>" by code_simp
  from t p have r: "step Resolve ?d = ?d\<lparr>promises := [], adapterState := CONFIGURED\<rparr>"
    and r2: "pendingAdapterArgs (step Resolve ?d) = pendingAdapterArgs ?d"
    and r3: "state (step Resolve ?d) = state ?d"
    by blast+
  have c1: "calls (componentDidUpdate ?c) =
       [OnFlagsStateChange [(''flagX'', Bool True)], Configure [(''flagA'', Num 1)],
        Reconfigure [(''flagA'', Num 1)]]"
    using t a by simp
  have c2: "adapterState (step Resolve ?d) = CONFIGURED" unfolding r by simp
  show ?thesis using h c1 p c2 r2 r3 q s by simp
qed

text \<open>
  C9. The calls made by \<open>componentDidMount\<close> are, in this order: one call of
  \<open>onFlagsStateChange\<close> with the default flags if and only if these are not empty, and
  then the call of \<open>configure\<close> unless configuration is deferred.
\<close>

theorem default_flags_bootstrap:
  "calls (componentDidMount c) =
     calls c
     @ (if defaultFlags (props c) \<noteq> [] then [OnFlagsStateChange (defaultFlags (props c))] else [])
     @ (if \<not> shouldDeferAdapterConfiguration (props c)
        then [Configure (case pendingAdapterArgs c of
                           None \<Rightarrow> appliedAdapterArgs (state c)
                         | Some pending \<Rightarrow> pending)]
        else [])"
  by (simp add: method_defs pendingOrApplied_def Let_def split: option.split)

theorem default_flags_bootstrap_witness:
  "calls (componentDidMount (constructor scenarioProps)) =
     [OnFlagsStateChange [(''flagX'', Bool True)], Configure [(''flagA'', Num 1)]]
   \<and> calls (componentDidMount (constructor (scenarioProps\<lparr>defaultFlags := []\<rparr>))) =
     [Configure [(''flagA'', Num 1)]]"
proof -
  let ?c = "constructor scenarioProps"
  let ?d = "constructor (scenarioProps\<lparr>defaultFlags := []\<rparr>)"
  have a: "calls ?c
     @ (if defaultFlags (props ?c) \<noteq> [] then [OnFlagsStateChange (defaultFlags (props ?c))] else [])
     @ (if \<not> shouldDeferAdapterConfiguration (props ?c)
        then [Configure (case pendingAdapterArgs ?c of
                           None \<Rightarrow> appliedAdapterArgs (state ?c)
                         | Some pending \<Rightarrow> pending)]
        else []) = [OnFlagsStateChange [(''flagX'', Bool True)], Configure [(''flagA'', Num 1)]]"
    by code_simp
  have b: "calls ?d
     @ (if defaultFlags (props ?d) \<noteq> [] then [OnFlagsStateChange (defaultFlags (props ?d))] else [])
     @ (if \<not> shouldDeferAdapterConfiguration (props ?d)
        then [Configure (case pendingAdapterArgs ?d of
                           None \<Rightarrow> appliedAdapterArgs (state ?d)
                         | Some pending \<Rightarrow> pending)]
        else []) = [Configure [(''flagA'', Num 1)]]"
    by code_simp
  show ?thesis
    using default_flags_bootstrap [of ?c] default_flags_bootstrap [of ?d] a b by simp
qed

section \<open>Requests while the adapter is configuring\<close>

lemma keys_mergeObject: "fst ` set (mergeObject ts ss) = fst ` set ts \<union> fst ` set ss"
proof -
  have "dom (map_of (mergeObject ts ss)) = dom (map_of ts) \<union> dom (map_of ss)"
    by (auto simp add: dom_def map_of_mergeObject split: option.splits)
  then show ?thesis by (simp add: dom_map_of_conv_image_fst)
qed

lemma keys_mergeAdapterArgs:
  "keys (adapterArgs r) \<subseteq> keys (mergeAdapterArgs previous r)"
  "\<not> overwrites (options r) \<Longrightarrow> keys previous \<subseteq> keys (mergeAdapterArgs previous r)"
  by (auto simp add: keys_def overwrites_def mergeAdapterArgs_def merge_def keys_mergeObject
      Let_def split: option.splits)

lemma reconfiguration_eta:
  "\<lparr>adapterArgs = adapterArgs r, options = options r\<rparr> = (r :: AdapterReconfiguration)"
  by (cases r) simp

lemma run_requests_queue:
  "adapterState c \<noteq> CONFIGURED \<Longrightarrow> rs \<noteq> [] \<Longrightarrow>
   run c (map (\<lambda>r. Request (adapterArgs r) (options r)) rs) =
     c\<lparr>pendingAdapterArgs := Some (foldl mergeAdapterArgs (pendingOrApplied c) rs)\<rparr>"
proof (induction rs arbitrary: c)
  case Nil
  then show ?case by simp
next
  case (Cons r rs)
  let ?c1 = "c\<lparr>pendingAdapterArgs := Some (mergeAdapterArgs (pendingOrApplied c) r)\<rparr>"
  have s: "step (Request (adapterArgs r) (options r)) c = ?c1"
    using Cons.prems(1)
    by (simp add: reconfigureOrQueue_def setPendingAdapterArgs_def reconfiguration_eta)
  show ?case
  proof (cases "rs = []")
    case True
    then show ?thesis using s by simp
  next
    case False
    have "adapterState ?c1 \<noteq> CONFIGURED" using Cons.prems(1) by simp
    from Cons.IH [OF this False] show ?thesis using s by (simp add: pendingOrApplied_def)
  qed
qed

lemma kept_Request:
  assumes "kept K c" "\<not> overwrites opts"
  shows "kept K (step (Request a opts) c)"
proof -
  let ?r = "\<lparr>adapterArgs = a, options = opts\<rparr>"
  have o: "\<not> overwrites (options ?r)" using assms(2) by simp
  have m: "\<And>previous. K \<subseteq> keys previous \<Longrightarrow> K \<subseteq> keys (mergeAdapterArgs previous ?r)"
    using keys_mergeAdapterArgs(2) [OF o] by blast
  show ?thesis
  proof (cases "adapterState c = CONFIGURED")
    case True
    then show ?thesis using assms(1) m [of "appliedAdapterArgs (state c)"]
      by (auto simp add: kept_def guarded_def reconfigureOrQueue_def applyAdapterArgs_def setState_def)
  next
    case False
    then show ?thesis using assms(1) m [of "pendingOrApplied c"]
      by (auto simp add: kept_def guarded_def reconfigureOrQueue_def setPendingAdapterArgs_def
          pendingOrApplied_def split: option.splits)
  qed
qed

lemma kept_step:
  assumes "kept K c" "e \<noteq> Mount" "\<not> overwriting e c"
  shows "kept K (step e c)"
proof (cases e)
  case Mount
  then show ?thesis using assms(2) by simp
next
  case (Request a opts)
  then show ?thesis using assms kept_Request by simp
next
  case (ReceiveProps nextProps)
  show ?thesis
  proof (cases "adapterArgsIdentity nextProps \<noteq> adapterArgsIdentity (props c)")
    case True
    then have n: "adapterState c \<noteq> CONFIGURED" using assms(3) ReceiveProps by simp
    have o: "\<not> overwrites (Some \<lparr>shouldOverwrite = Some (adapterState c = CONFIGURED)\<rparr>)"
      using n by (simp add: overwrites_def)
    have "kept K (step (Request (propsAdapterArgs nextProps)
                     (Some \<lparr>shouldOverwrite = Some (adapterState c = CONFIGURED)\<rparr>)) c)"
      using kept_Request [OF assms(1) o] .
    then show ?thesis using ReceiveProps True
      by (simp add: componentWillReceiveProps_def kept_def guarded_def)
  next
    case False
    then show ?thesis using ReceiveProps assms(1)
      by (simp add: componentWillReceiveProps_def kept_def guarded_def)
  qed
next
  case Update
  then show ?thesis using assms(1)
    by (cases "adapterState c")
       (auto simp add: kept_def guarded_def componentDidUpdate_def setAdapterState_def
          callAdapter_def getAdapterArgsForConfiguration_def Let_def split: option.splits)
next
  case Resolve
  show ?thesis
  proof (cases "promises c")
    case Nil
    then show ?thesis using Resolve assms(1) by simp
  next
    case (Cons k ks)
    then have ks: "ks = []" and st: "adapterState c = CONFIGURING"
      using assms(1) by (simp_all add: kept_def guarded_def)
    show ?thesis using Resolve Cons ks st assms(1)
      by (cases k)
         (auto simp add: kept_def guarded_def configureThen_def reconfigureThen_def
            setAdapterState_def applyAdapterArgs_def setState_def Let_def split: option.splits)
  qed
next
  case Reject
  then show ?thesis using assms(1)
    by (cases "promises c") (auto simp add: kept_def guarded_def split: option.splits)
qed

lemma kept_run: "kept K c \<Longrightarrow> quiet c es \<Longrightarrow> kept K (run c es)"
  by (induction es arbitrary: c) (simp_all add: kept_step)

lemma kept_heldKeys: "kept K c \<Longrightarrow> K \<subseteq> heldKeys c"
  by (auto simp add: kept_def heldKeys_def split: option.splits)

lemma kept_two_requests:
  assumes "adapterState c = CONFIGURING" "promises c = [ConfigureThen]" "\<not> overwrites opts2"
  shows "kept (keys a1 \<union> keys a2) (run c [Request a1 opts1, Request a2 opts2])"
proof -
  let ?r1 = "\<lparr>adapterArgs = a1, options = opts1\<rparr>"
  let ?r2 = "\<lparr>adapterArgs = a2, options = opts2\<rparr>"
  let ?p1 = "mergeAdapterArgs (pendingOrApplied c) ?r1"
  have n: "adapterState c \<noteq> CONFIGURED" "[?r1, ?r2] \<noteq> []" using assms(1) by simp_all
  have q: "run c [Request a1 opts1, Request a2 opts2] =
             c\<lparr>pendingAdapterArgs := Some (mergeAdapterArgs ?p1 ?r2)\<rparr>"
    using run_requests_queue [OF n] by simp
  have "keys a1 \<subseteq> keys ?p1" using keys_mergeAdapterArgs(1) [of ?r1] by simp
  moreover have "keys ?p1 \<subseteq> keys (mergeAdapterArgs ?p1 ?r2)"
    using keys_mergeAdapterArgs(2) [of ?r2] assms(3) by simp
  moreover have "keys a2 \<subseteq> keys (mergeAdapterArgs ?p1 ?r2)"
    using keys_mergeAdapterArgs(1) [of ?r2] by simp
  ultimately have "keys a1 \<union> keys a2 \<subseteq> keys (mergeAdapterArgs ?p1 ?r2)" by blast
  then show ?thesis unfolding q using assms(1,2) by (simp add: kept_def guarded_def)
qed

text \<open>
  The path through \<open>configure\<close>. Requests that arrive in the state \<open>CONFIGURING\<close> are
  folded into the pending arguments in the order of arrival: after them the pending
  arguments are the left fold of \<open>mergeAdapterArgs\<close> over the requests, starting from the
  pending arguments before them (from the applied ones when there were none), and nothing
  else has changed. When the outstanding promise is that of \<open>configure\<close>, resolving it
  makes these pending arguments the applied ones, and of two requests that arrived in the
  meantime, the second not overwriting, every top-level key is held, applied or pending,
  after every quiet sequence of later events.
\<close>

lemma requests_kept_through_configure:
  "adapterState c = CONFIGURING \<Longrightarrow>
   (rs \<noteq> [] \<longrightarrow>
      run c (map (\<lambda>r. Request (adapterArgs r) (options r)) rs) =
        c\<lparr>pendingAdapterArgs := Some (foldl mergeAdapterArgs (pendingOrApplied c) rs)\<rparr>)
   \<and> (rs \<noteq> [] \<and> promises c = [ConfigureThen] \<longrightarrow>
        step Resolve (run c (map (\<lambda>r. Request (adapterArgs r) (options r)) rs)) =
          c\<lparr>promises := [], adapterState := CONFIGURED,
            state := (state c)\<lparr>appliedAdapterArgs :=
                       foldl mergeAdapterArgs (pendingOrApplied c) rs\<rparr>,
            pendingAdapterArgs := None\<rparr>)
   \<and> (promises c = [ConfigureThen] \<and> \<not> overwrites opts2
        \<and> quiet (run c [Request a1 opts1, Request a2 opts2]) later \<longrightarrow>
        keys a1 \<union> keys a2
          \<subseteq> heldKeys (run c (Request a1 opts1 # Request a2 opts2 # later)))"
proof (intro conjI impI)
  assume c: "adapterState c = CONFIGURING"
  {
    assume "rs \<noteq> []"
    then show "run c (map (\<lambda>r. Request (adapterArgs r) (options r)) rs) =
        c\<lparr>pendingAdapterArgs := Some (foldl mergeAdapterArgs (pendingOrApplied c) rs)\<rparr>"
      using c by (simp add: run_requests_queue)
  }
  {
    assume a: "rs \<noteq> [] \<and> promises c = [ConfigureThen]"
    then have q: "run c (map (\<lambda>r. Request (adapterArgs r) (options r)) rs) =
        c\<lparr>pendingAdapterArgs := Some (foldl mergeAdapterArgs (pendingOrApplied c) rs)\<rparr>"
      using c by (simp add: run_requests_queue)
    show "step Resolve (run c (map (\<lambda>r. Request (adapterArgs r) (options r)) rs)) =
          c\<lparr>promises := [], adapterState := CONFIGURED,
            state := (state c)\<lparr>appliedAdapterArgs :=
                       foldl mergeAdapterArgs (pendingOrApplied c) rs\<rparr>,
            pendingAdapterArgs := None\<rparr>"
      unfolding q using a
      by (simp add: configureThen_def setAdapterState_def applyAdapterArgs_def setState_def Let_def)
  }
  {
    assume a: "promises c = [ConfigureThen] \<and> \<not> overwrites opts2
        \<and> quiet (run c [Request a1 opts1, Request a2 opts2]) later"
    then have "kept (keys a1 \<union> keys a2) (run c [Request a1 opts1, Request a2 opts2])"
      using c kept_two_requests by blast
    then have "kept (keys a1 \<union> keys a2) (run (run c [Request a1 opts1, Request a2 opts2]) later)"
      using a kept_run by blast
    then show "keys a1 \<union> keys a2
          \<subseteq> heldKeys (run c (Request a1 opts1 # Request a2 opts2 # later))"
      using kept_heldKeys by fastforce
  }
qed

lemma requests_kept_through_configure_scenario:
  "adapterState (run (constructor scenarioProps) [Mount]) = CONFIGURING
   \<and> promises (run (constructor scenarioProps) [Mount]) = [ConfigureThen]
   \<and> \<not> overwrites (Some \<lparr>shouldOverwrite = Some False\<rparr>)
   \<and> quiet (run (run (constructor scenarioProps) [Mount])
               [Request [(''flagB'', Num 2)] None,
                Request [(''flagC'', Num 3)] (Some \<lparr>shouldOverwrite = Some False\<rparr>)])
        [Resolve, Update, Request [(''flagD'', Num 4)] None, Resolve,
         Request [(''flagE'', Num 5)] None]
   \<and> pendingAdapterArgs (run (run (constructor scenarioProps) [Mount])
         [Request [(''flagB'', Num 2)] None,
          Request [(''flagC'', Num 3)] (Some \<lparr>shouldOverwrite = Some False\<rparr>)]) =
       Some [(''flagA'', Num 1), (''flagB'', Num 2), (''flagC'', Num 3)]
   \<and> state (step Resolve (run (run (constructor scenarioProps) [Mount])
         [Request [(''flagB'', Num 2)] None,
          Request [(''flagC'', Num 3)] (Some \<lparr>shouldOverwrite = Some False\<rparr>)])) =
       \<lparr>appliedAdapterArgs = [(''flagA'', Num 1), (''flagB'', Num 2), (''flagC'', Num 3)]\<rparr>
   \<and> {''flagB'', ''flagC''}
       \<subseteq> heldKeys (run (run (constructor scenarioProps) [Mount])
            (Request [(''flagB'', Num 2)] None
             # Request [(''flagC'', Num 3)] (Some \<lparr>shouldOverwrite = Some False\<rparr>)
             # [Resolve, Update, Request [(''flagD'', Num 4)] None, Resolve,
                Request [(''flagE'', Num 5)] None]))"
proof -
  let ?c = "run (constructor scenarioProps) [Mount]"
  let ?r1 = "\<lparr>adapterArgs = [(''flagB'', Num 2)], options = None\<rparr>"
  let ?r2 = "\<lparr>adapterArgs = [(''flagC'', Num 3)],
              options = Some \<lparr>shouldOverwrite = Some False\<rparr>\<rparr>"
  let ?later = "[Resolve, Update, Request [(''flagD'', Num 4)] None, Resolve,
                 Request [(''flagE'', Num 5)] None]"
  have h: "adapterState ?c = CONFIGURING" by code_simp
  have p: "promises ?c = [ConfigureThen]" by code_simp
  have o: "\<not> overwrites (Some \<lparr>shouldOverwrite = Some False\<rparr>)" by code_simp
  have u: "quiet (run ?c [Request [(''flagB'', Num 2)] None,
                          Request [(''flagC'', Num 3)] (Some \<lparr>shouldOverwrite = Some False\<rparr>)])
             ?later"
    by code_simp
  have f: "foldl mergeAdapterArgs (pendingOrApplied ?c) [?r1, ?r2] =
             [(''flagA'', Num 1), (''flagB'', Num 2), (''flagC'', Num 3)]" by code_simp
  note t = requests_kept_through_configure
             [OF h, of "[?r1, ?r2]" "Some \<lparr>shouldOverwrite = Some False\<rparr>"
                "[(''flagB'', Num 2)]" None "[(''flagC'', Num 3)]" ?later]
  have n: "[?r1, ?r2] \<noteq> []" by simp
  have e: "map (\<lambda>r. Request (adapterArgs r) (options r)) [?r1, ?r2] =
             [Request [(''flagB'', Num 2)] None,
              Request [(''flagC'', Num 3)] (Some \<lparr>shouldOverwrite = Some False\<rparr>)]"
    by simp
  have "run ?c (map (\<lambda>r. Request (adapterArgs r) (options r)) [?r1, ?r2]) =
          ?c\<lparr>pendingAdapterArgs := Some (foldl mergeAdapterArgs (pendingOrApplied ?c) [?r1, ?r2])\<rparr>"
    using t n by blast
  then have q: "run ?c [Request [(''flagB'', Num 2)] None,
                   Request [(''flagC'', Num 3)] (Some \<lparr>shouldOverwrite = Some False\<rparr>)] =
           ?c\<lparr>pendingAdapterArgs :=
                Some [(''flagA'', Num 1), (''flagB'', Num 2), (''flagC'', Num 3)]\<rparr>"
    unfolding e f .
  have "step Resolve (run ?c (map (\<lambda>r. Request (adapterArgs r) (options r)) [?r1, ?r2])) =
          ?c\<lparr>promises := [], adapterState := CONFIGURED,
            state := (state ?c)\<lparr>appliedAdapterArgs :=
                       foldl mergeAdapterArgs (pendingOrApplied ?c) [?r1, ?r2]\<rparr>,
            pendingAdapterArgs := None\<rparr>"
    using t n p by blast
  then have r: "step Resolve (run ?c [Request [(''flagB'', Num 2)] None,
                   Request [(''flagC'', Num 3)] (Some \<lparr>shouldOverwrite = Some False\<rparr>)]) =
           ?c\<lparr>promises := [], adapterState := CONFIGURED,
             state := (state ?c)\<lparr>appliedAdapterArgs :=
                        [(''flagA'', Num 1), (''flagB'', Num 2), (''flagC'', Num 3)]\<rparr>,
             pendingAdapterArgs := None\<rparr>"
    unfolding e f .
  have a0: "pendingAdapterArgs (run ?c [Request [(''flagB'', Num 2)] None,
                   Request [(''flagC'', Num 3)] (Some \<lparr>shouldOverwrite = Some False\<rparr>)]) =
              Some [(''flagA'', Num 1), (''flagB'', Num 2), (''flagC'', Num 3)]"
    unfolding q by simp
  have a1: "state (step Resolve (run ?c [Request [(''flagB'', Num 2)] None,
                   Request [(''flagC'', Num 3)] (Some \<lparr>shouldOverwrite = Some False\<rparr>)])) =
              \<lparr>appliedAdapterArgs = [(''flagA'', Num 1), (''flagB'', Num 2), (''flagC'', Num 3)]\<rparr>"
    unfolding r by simp
  have k: "keys [(''flagB'', Num 2)] \<union> keys [(''flagC'', Num 3)] = {''flagB'', ''flagC''}"
    by (simp add: keys_def insert_commute)
  have a2: "{''flagB'', ''flagC''}
       \<subseteq> heldKeys (run ?c
            (Request [(''flagB'', Num 2)] None
             # Request [(''flagC'', Num 3)] (Some \<lparr>shouldOverwrite = Some False\<rparr>)
             # ?later))"
    using t p o u unfolding k by blast
  show ?thesis using h p o u a0 a1 a2 by blast
qed

text \<open>
  The path through \<open>reconfigure\<close>. Its \<^verbatim>\<open>.then\<close> callback only sets the adapter state
  and leaves the pending arguments where they are; the next commit in the state
  \<open>CONFIGURED\<close> merges into the applied arguments and clears the pending ones. Whatever
  was requested while \<open>reconfigure\<close> was outstanding has then no influence on the
  component.
\<close>

lemma run_append: "run c (es @ es') = run (run c es) es'"
  by (induction es arbitrary: c) simp_all

lemma reconfigure_completion_drops_requests:
  assumes "adapterState c = CONFIGURING" "promises c = [ReconfigureThen]"
    and "(rs :: AdapterReconfiguration list) \<noteq> []"
  shows "run c (map (\<lambda>r. Request (adapterArgs r) (options r)) rs @ [Resolve, Request a opts]) =
           c\<lparr>promises := [], adapterState := CONFIGURED,
             state := (state c)\<lparr>appliedAdapterArgs :=
                        mergeAdapterArgs (appliedAdapterArgs (state c))
                          \<lparr>adapterArgs = a, options = opts\<rparr>\<rparr>,
             pendingAdapterArgs := None\<rparr>"
proof -
  have n: "adapterState c \<noteq> CONFIGURED" using assms(1) by simp
  show ?thesis
    unfolding run_append run_requests_queue [OF n assms(3)]
    using assms(1,2)
    by (simp add: reconfigureThen_def setAdapterState_def reconfigureOrQueue_def
        applyAdapterArgs_def setState_def)
qed

text \<open>
  C2. The code loses requests that arrive while the adapter state is \<open>CONFIGURING\<close>. In
  the scenario of the specification the component is mounted, \<open>configure\<close> resolves, and an
  update starts a \<open>reconfigure\<close>. While it is outstanding two requests arrive, for
  \<^verbatim>\<open>{flagB: 2}\<close> and for \<^verbatim>\<open>{flagC: 3}\<close>, neither overwriting; both are folded into the
  pending arguments. \<open>reconfigure\<close> resolves, and the pending arguments stay pending. A
  third request, for \<^verbatim>\<open>{flagD: 4}\<close>, is committed in the state \<open>CONFIGURED\<close>: the applied
  arguments are then \<^verbatim>\<open>{flagA: 1, flagD: 4}\<close>, nothing is pending, and \<^verbatim>\<open>flagB\<close> and
  \<^verbatim>\<open>flagC\<close> are neither applied nor pending, although nothing in the run overwrites.
\<close>

theorem requests_lost_after_reconfigure:
  "adapterState (run (constructor scenarioProps) [Mount, Resolve, Update]) = CONFIGURING
   \<and> promises (run (constructor scenarioProps) [Mount, Resolve, Update]) = [ReconfigureThen]
   \<and> run (constructor scenarioProps)
       [Mount, Resolve, Update,
        Request [(''flagB'', Num 2)] None,
        Request [(''flagC'', Num 3)] None] =
     \<lparr>props = scenarioProps,
      state = \<lparr>appliedAdapterArgs = [(''flagA'', Num 1)]\<rparr>,
      adapterState = CONFIGURING,
      pendingAdapterArgs = Some [(''flagA'', Num 1), (''flagB'', Num 2), (''flagC'', Num 3)],
      calls = [OnFlagsStateChange [(''flagX'', Bool True)], Configure [(''flagA'', Num 1)],
               Reconfigure [(''flagA'', Num 1)]],
      promises = [ReconfigureThen]\<rparr>
   \<and> run (constructor scenarioProps)
       [Mount, Resolve, Update,
        Request [(''flagB'', Num 2)] None,
        Request [(''flagC'', Num 3)] None,
        Resolve] =
     \<lparr>props = scenarioProps,
      state = \<lparr>appliedAdapterArgs = [(''flagA'', Num 1)]\<rparr>,
      adapterState = CONFIGURED,
      pendingAdapterArgs = Some [(''flagA'', Num 1), (''flagB'', Num 2), (''flagC'', Num 3)],
      calls = [OnFlagsStateChange [(''flagX'', Bool True)], Configure [(''flagA'', Num 1)],
               Reconfigure [(''flagA'', Num 1)]],
      promises = []\<rparr>
   \<and> run (constructor scenarioProps)
       [Mount, Resolve, Update,
        Request [(''flagB'', Num 2)] None,
        Request [(''flagC'', Num 3)] None,
        Resolve,
        Request [(''flagD'', Num 4)] None] =
     \<lparr>props = scenarioProps,
      state = \<lparr>appliedAdapterArgs = [(''flagA'', Num 1), (''flagD'', Num 4)]\<rparr>,
      adapterState = CONFIGURED,
      pendingAdapterArgs = None,
      calls = [OnFlagsStateChange [(''flagX'', Bool True)], Configure [(''flagA'', Num 1)],
               Reconfigure [(''flagA'', Num 1)]],
      promises = []\<rparr>
   \<and> quiet (run (constructor scenarioProps)
              [Mount, Resolve, Update,
               Request [(''flagB'', Num 2)] None,
               Request [(''flagC'', Num 3)] None])
        [Resolve, Request [(''flagD'', Num 4)] None]
   \<and> ''flagB'' \<notin> heldKeys (run (constructor scenarioProps)
       [Mount, Resolve, Update,
        Request [(''flagB'', Num 2)] None,
        Request [(''flagC'', Num 3)] None,
        Resolve,
        Request [(''flagD'', Num 4)] None])
   \<and> ''flagC'' \<notin> heldKeys (run (constructor scenarioProps)
       [Mount, Resolve, Update,
        Request [(''flagB'', Num 2)] None,
        Request [(''flagC'', Num 3)] None,
        Resolve,
        Request [(''flagD'', Num 4)] None])"
proof -
  have 1: "adapterState (run (constructor scenarioProps) [Mount, Resolve, Update]) = CONFIGURING"
    by code_simp
  have 2: "promises (run (constructor scenarioProps) [Mount, Resolve, Update]) = [ReconfigureThen]"
    by code_simp
  have 3: "run (constructor scenarioProps)
       [Mount, Resolve, Update,
        Request [(''flagB'', Num 2)] None,
        Request [(''flagC'', Num 3)] None] =
     \<lparr>props = scenarioProps,
      state = \<lparr>appliedAdapterArgs = [(''flagA'', Num 1)]\<rparr>,
      adapterState = CONFIGURING,
      pendingAdapterArgs = Some [(''flagA'', Num 1), (''flagB'', Num 2), (''flagC'', Num 3)],
      calls = [OnFlagsStateChange [(''flagX'', Bool True)], Configure [(''flagA'', Num 1)],
               Reconfigure [(''flagA'', Num 1)]],
      promises = [ReconfigureThen]\<rparr>"
    by code_simp
  have 4: "run (constructor scenarioProps)
       [Mount, Resolve, Update,
        Request [(''flagB'', Num 2)] None,
        Request [(''flagC'', Num 3)] None,
        Resolve] =
     \<lparr>props = scenarioProps,
      state = \<lparr>appliedAdapterArgs = [(''flagA'', Num 1)]\<rparr>,
      adapterState = CONFIGURED,
      pendingAdapterArgs = Some [(''flagA'', Num 1), (''flagB'', Num 2), (''flagC'', Num 3)],
      calls = [OnFlagsStateChange [(''flagX'', Bool True)], Configure [(''flagA'', Num 1)],
               Reconfigure [(''flagA'', Num 1)]],
      promises = []\<rparr>"
    by code_simp
  have 5: "run (constructor scenarioProps)
       [Mount, Resolve, Update,
        Request [(''flagB'', Num 2)] None,
        Request [(''flagC'', Num 3)] None,
        Resolve,
        Request [(''flagD'', Num 4)] None] =
     \<lparr>props = scenarioProps,
      state = \<lparr>appliedAdapterArgs = [(''flagA'', Num 1), (''flagD'', Num 4)]\<rparr>,
      adapterState = CONFIGURED,
      pendingAdapterArgs = None,
      calls = [OnFlagsStateChange [(''flagX'', Bool True)], Configure [(''flagA'', Num 1)],
               Reconfigure [(''flagA'', Num 1)]],
      promises = []\<rparr>"
    by code_simp
  have 6: "quiet (run (constructor scenarioProps)
              [Mount, Resolve, Update,
               Request [(''flagB'', Num 2)] None,
               Request [(''flagC'', Num 3)] None])
        [Resolve, Request [(''flagD'', Num 4)] None]"
    by code_simp
  have 7: "''flagB'' \<notin> heldKeys (run (constructor scenarioProps)
       [Mount, Resolve, Update,
        Request [(''flagB'', Num 2)] None,
        Request [(''flagC'', Num 3)] None,
        Resolve,
        Request [(''flagD'', Num 4)] None])"
    unfolding 5 by (simp add: heldKeys_def keys_def)
  have 8: "''flagC'' \<notin> heldKeys (run (constructor scenarioProps)
       [Mount, Resolve, Update,
        Request [(''flagB'', Num 2)] None,
        Request [(''flagC'', Num 3)] None,
        Resolve,
        Request [(''flagD'', Num 4)] None])"
    unfolding 5 by (simp add: heldKeys_def keys_def)
  show ?thesis using 1 2 3 4 5 6 7 8 by blast
qed

section \<open>The transitions of the adapter state\<close>

lemma step_Request_idle: "idle c \<Longrightarrow> idle (step (Request a opts) c) \<and> legal c (step (Request a opts) c)"
  by (simp add: idle_def legal_def method_defs)

lemma step_Mount_idle: "idle c \<Longrightarrow> guarded (step Mount c) \<and> legal c (step Mount c)"
  by (simp add: idle_def guarded_def legal_def allowedTransition_def method_defs Let_def)

lemma step_guarded: "guarded c \<Longrightarrow> e \<noteq> Mount \<Longrightarrow> guarded (step e c) \<and> legal c (step e c)"
proof (cases e)
  case Resolve
  assume g: "guarded c"
  show ?thesis
  proof (cases "promises c")
    case Nil
    then show ?thesis using g Resolve by (simp add: guarded_def legal_def)
  next
    case (Cons k ks)
    then have "ks = []" "adapterState c = CONFIGURING" using g by (simp_all add: guarded_def)
    then show ?thesis using Cons Resolve
      by (cases k) (simp_all add: guarded_def legal_def allowedTransition_def method_defs Let_def split: option.split)
  qed
next
  case Update
  assume "guarded c"
  then show ?thesis using Update
    by (cases "adapterState c") (auto simp add: guarded_def legal_def allowedTransition_def method_defs Let_def)
qed (auto simp add: guarded_def legal_def allowedTransition_def method_defs Let_def)

lemma hd_trajectory: "hd (trajectory c es) = c"
  by (cases es) simp_all

lemma trajectory_nonempty: "trajectory c es \<noteq> []"
  by (cases es) simp_all

lemma trajectory_guarded:
  "guarded c \<Longrightarrow> Mount \<notin> set es \<Longrightarrow>
   successively legal (trajectory c es) \<and> list_all guarded (trajectory c es)"
proof (induction es arbitrary: c)
  case Nil
  then show ?case by simp
next
  case (Cons e es)
  then have s: "guarded (step e c)" "legal c (step e c)" using step_guarded [of c e] by auto
  have "Mount \<notin> set es" using Cons.prems by simp
  from Cons.IH [OF s(1) this] show ?case using s Cons.prems(1)
    by (simp add: successively_Cons hd_trajectory trajectory_nonempty)
qed

lemma trajectory_idle:
  "idle c \<Longrightarrow> Mount \<notin> set later \<Longrightarrow>
   successively legal (trajectory c (lifecycle early later))"
proof (induction early arbitrary: c)
  case Nil
  then have s: "guarded (step Mount c)" "legal c (step Mount c)" using step_Mount_idle by auto
  from trajectory_guarded [OF s(1) Nil.prems(2)] show ?case using s
    by (simp add: lifecycle_def successively_Cons hd_trajectory trajectory_nonempty)
next
  case (Cons r early)
  obtain a opts where r: "r = (a, opts)" by (cases r)
  have s: "idle (step (Request a opts) c)" "legal c (step (Request a opts) c)"
    using step_Request_idle [OF Cons.prems(1)] by auto
  from Cons.IH [OF s(1) Cons.prems(2)] show ?case using s r
    by (simp add: lifecycle_def successively_Cons hd_trajectory trajectory_nonempty)
qed

text \<open>
  C6. Over the whole life of a component (requests before it is mounted, the mount, and
  any sequence of requests, new props, updates and settled promises after it) every step
  leaves the adapter state as it is or takes one of the transitions
  \<open>UNCONFIGURED\<close> to \<open>CONFIGURING\<close>, \<open>CONFIGURING\<close> to \<open>CONFIGURED\<close>, \<open>CONFIGURED\<close> to
  \<open>CONFIGURING\<close>; and a step that calls \<open>configure\<close> or \<open>reconfigure\<close> starts outside
  \<open>CONFIGURING\<close> and ends in it.
\<close>

theorem adapterState_transitions:
  "Mount \<notin> set later \<Longrightarrow>
   successively legal (trajectory (constructor p) (lifecycle early later))"
  by (rule trajectory_idle) (simp_all add: idle_def constructor_def)

theorem adapterState_transitions_witness:
  "Mount \<notin> set [Request [(''flagB'', Num 2)] None, Resolve, Update, Update, Resolve]
   \<and> successively legal
        (trajectory (constructor scenarioProps)
           (lifecycle [([(''flagC'', Num 3)], None)]
              [Request [(''flagB'', Num 2)] None, Resolve, Update, Update, Resolve]))
   \<and> map adapterState
        (trajectory (constructor scenarioProps)
           (lifecycle [([(''flagC'', Num 3)], None)]
              [Request [(''flagB'', Num 2)] None, Resolve, Update, Update, Resolve])) =
       [UNCONFIGURED, UNCONFIGURED, CONFIGURING, CONFIGURING, CONFIGURED, CONFIGURING,
        CONFIGURING, CONFIGURED]"
proof -
  have h: "Mount \<notin> set [Request [(''flagB'', Num 2)] None, Resolve, Update, Update, Resolve]"
    by simp
  have m: "map adapterState
        (trajectory (constructor scenarioProps)
           (lifecycle [([(''flagC'', Num 3)], None)]
              [Request [(''flagB'', Num 2)] None, Resolve, Update, Update, Resolve])) =
       [UNCONFIGURED, UNCONFIGURED, CONFIGURING, CONFIGURING, CONFIGURED, CONFIGURING,
        CONFIGURING, CONFIGURED]"
    by code_simp
  show ?thesis
    using adapterState_transitions [OF h, of scenarioProps "[([(''flagC'', Num 3)], None)]"] h m
    by blast
qed

end
